theory Spec2Isabelle
  imports Main
begin

section \<open>Data model\<close>

text \<open>
  The editor's documents are Slate trees. A Slate node is a plain JavaScript object; the
  library tells the two variants apart by their properties: \<open>Text.isText\<close> asks for a
  string property \<open>text\<close>, \<open>Element.isElement\<close> for a \<open>children\<close> array of nodes.
  The rewriter assigns \<open>text\<close> to every child of a link, so an element can come to carry
  a \<open>text\<close> property as well; the element constructor therefore has an optional
  \<open>text\<close> slot, which is \<open>None\<close> in every tree that the editor itself builds.
\<close>

type_synonym Path = "nat list"

text \<open>
  Modelled from the spec: \<open>types/slate\<close> (the \<open>ElementType\<close> enumeration and the
  per-type element fields) is not among the sources. An element holds a variant tag and
  per-tag fields; the note link holds, in this order, \<open>noteId\<close> (the target's
  identifier), \<open>noteTitle\<close> (a copy of the target's title) and the flag
  \<open>isTextTitle\<close>. Every other tag is kept by name with its fields
  uninterpreted.
\<close>

datatype ElementData =
    NoteLink string string bool
  | OtherElement string "(string \<times> string) list"

datatype Descendant =
    Text string
  | Element ElementData "string option" "Descendant list"

text \<open>
  Modelled from the spec: \<open>types/supabase\<close> (the \<open>Note\<close> row) and the user of
  \<open>utils/useAuth\<close> are not among the sources. A document has an identifier, a title,
  its content and an owner; of the user only the identifier is read.
\<close>

record Note =
  note_id :: string
  note_title :: string
  note_content :: "Descendant list"
  note_user_id :: string

record User =
  user_id :: string

record Match =
  match_context :: string
  match_path :: Path

record Backlink =
  backlink_id :: string
  backlink_title :: string
  matches :: "Match list"

record UpsertRow =
  row_id :: string
  row_title :: string
  row_user_id :: string
  row_content :: "Descendant list"

section \<open>The Slate interface used by the hook\<close>

text \<open>\<open>Text.isText(node)\<close>: the object has a string property \<open>text\<close>.\<close>

fun isText :: "Descendant \<Rightarrow> bool" where
  "isText (Text s) = True"
| "isText (Element d (Some s) cs) = True"
| "isText (Element d None cs) = False"

text \<open>\<open>Element.isElement(node)\<close>: the object has a \<open>children\<close> array of nodes.\<close>

fun isElement :: "Descendant \<Rightarrow> bool" where
  "isElement (Text s) = False"
| "isElement (Element d x cs) = True"

text \<open>
  \<open>Node.string(node)\<close>: the \<open>text\<close> of a node that passes \<open>Text.isText\<close>, otherwise
  the concatenation of the strings of the children.
\<close>

fun node_string :: "Descendant \<Rightarrow> string" where
  "node_string (Text s) = s"
| "node_string (Element d (Some s) cs) = s"
| "node_string (Element d None cs) = concat (map node_string cs)"

text \<open>\<open>node.type === ElementType.NoteLink\<close>, for a node that is an element.\<close>

fun isNoteLink :: "Descendant \<Rightarrow> bool" where
  "isNoteLink (Element (NoteLink i t b) x cs) = True"
| "isNoteLink (Element (OtherElement g fs) x cs) = False"
| "isNoteLink (Text s) = False"

text \<open>\<open>child.noteId\<close>, read only on a note link; \<open>undefined\<close> elsewhere.\<close>

fun noteIdOf :: "Descendant \<Rightarrow> string option" where
  "noteIdOf (Element (NoteLink i t b) x cs) = Some i"
| "noteIdOf (Element (OtherElement g fs) x cs) = None"
| "noteIdOf (Text s) = None"

text \<open>A JavaScript array read \<open>xs[i]\<close>: \<open>undefined\<close> out of range.\<close>

definition js_index :: "'a list \<Rightarrow> nat \<Rightarrow> 'a option" where
  "js_index xs i = (if i < length xs then Some (xs ! i) else None)"

section \<open>The finder\<close>

text \<open>
  \<open>getBacklinkMatchesHelper\<close>; \<open>helperLoop\<close> is its \<open>for\<close> loop over
  \<open>children.entries()\<close>, with the index of the next child.
\<close>

fun getBacklinkMatchesHelper :: "Descendant \<Rightarrow> string \<Rightarrow> Path \<Rightarrow> Match list"
and helperLoop :: "Descendant \<Rightarrow> Descendant list \<Rightarrow> nat \<Rightarrow> string \<Rightarrow> Path \<Rightarrow> Match list"
where
  "getBacklinkMatchesHelper (Text s) noteId path = []"
| "getBacklinkMatchesHelper (Element d (Some s) cs) noteId path = []"
| "getBacklinkMatchesHelper (Element d None cs) noteId path =
     helperLoop (Element d None cs) cs 0 noteId path"
| "helperLoop node [] index noteId path = []"
| "helperLoop node (child # rest) index noteId path =
     (if isElement child then
        (if isNoteLink child \<and> noteIdOf child = Some noteId \<and> node_string child \<noteq> []
         then [\<lparr>match_context = node_string node, match_path = path @ [index]\<rparr>]
         else [])
        @ getBacklinkMatchesHelper child noteId (path @ [index])
      else [])
     @ helperLoop node rest (Suc index) noteId path"

text \<open>\<open>getBacklinkMatches\<close>: the loop over \<open>nodes.entries()\<close>, from index \<open>index\<close>.\<close>

fun matchesFrom :: "Descendant list \<Rightarrow> nat \<Rightarrow> string \<Rightarrow> Match list" where
  "matchesFrom [] index noteId = []"
| "matchesFrom (node # rest) index noteId =
     getBacklinkMatchesHelper node noteId [index] @ matchesFrom rest (Suc index) noteId"

definition getBacklinkMatches :: "Descendant list \<Rightarrow> string \<Rightarrow> Match list" where
  "getBacklinkMatches nodes noteId = matchesFrom nodes 0 noteId"

fun getBacklinks :: "Note list \<Rightarrow> string \<Rightarrow> Backlink list" where
  "getBacklinks [] noteId = []"
| "getBacklinks (note # rest) noteId =
     (let ms = getBacklinkMatches (note_content note) noteId in
      (if length ms > 0
       then [\<lparr>backlink_id = note_id note, backlink_title = note_title note, matches = ms\<rparr>]
       else [])
      @ getBacklinks rest noteId)"

section \<open>The rewriter\<close>

text \<open>
  Reading a property of \<open>undefined\<close> throws a \<open>TypeError\<close>. Nothing in the hook
  catches it: it leaves the recipe, \<open>produce\<close> and \<open>updateBacklinks\<close>.
\<close>

datatype js_error = TypeError

text \<open>
  The loop \<open>for (const pathNumber of path.slice(1))\<close> with its body
  \<open>linkNode = (linkNode as Element).children[pathNumber]\<close>. \<open>linkNode\<close> is
  \<open>undefined\<close> (here \<open>None\<close>) after a read out of range; a text node has no
  \<open>children\<close>, so indexing them throws as well.
\<close>

fun descend :: "Descendant option \<Rightarrow> Path \<Rightarrow> js_error + Descendant option" where
  "descend linkNode [] = Inr linkNode"
| "descend None (pathNumber # rest) = Inl TypeError"
| "descend (Some (Text s)) (pathNumber # rest) = Inl TypeError"
| "descend (Some (Element d x cs)) (pathNumber # rest) = descend (js_index cs pathNumber) rest"

text \<open>\<open>linkNodeChild.text = newTitle\<close>: on an element the property is added.\<close>

fun setText :: "string \<Rightarrow> Descendant \<Rightarrow> Descendant" where
  "setText newTitle (Text s) = Text newTitle"
| "setText newTitle (Element d x cs) = Element d (Some newTitle) cs"

text \<open>
  The assignments to the resolved link node: \<open>noteTitle\<close>, and under \<open>isTextTitle\<close>
  the \<open>text\<close> of every child. The recipe reaches them only with a note link; the other
  equations make the function total.
\<close>

fun updateLinkNode :: "string \<Rightarrow> Descendant \<Rightarrow> Descendant" where
  "updateLinkNode newTitle (Element (NoteLink i t isTextTitle) x cs) =
     Element (NoteLink i newTitle isTextTitle) x
       (if isTextTitle then map (setText newTitle) cs else cs)"
| "updateLinkNode newTitle (Element (OtherElement g fs) x cs) = Element (OtherElement g fs) x cs"
| "updateLinkNode newTitle (Text s) = Text s"

text \<open>
  The draft after the node at \<open>path\<close> was assigned to: \<open>produce\<close> returns the tree
  with that node replaced and every node above it rebuilt around it.
\<close>

fun writeAt :: "Descendant list \<Rightarrow> Path \<Rightarrow> Descendant \<Rightarrow> Descendant list" where
  "writeAt nodes [] new = nodes"
| "writeAt nodes [i] new = nodes[i := new]"
| "writeAt nodes (i # j # rest) new =
     (case js_index nodes i of
        Some (Element d x cs) \<Rightarrow> nodes[i := Element d x (writeAt cs (j # rest) new)]
      | Some (Text s) \<Rightarrow> nodes
      | None \<Rightarrow> nodes)"

text \<open>
  "Get the node from the path": \<open>draftState[path[0]]\<close>, then the loop. The recipe
  calls it with a non-empty path only.
\<close>

definition resolve :: "Descendant list \<Rightarrow> Path \<Rightarrow> js_error + Descendant option" where
  "resolve draftState path = descend (js_index draftState (hd path)) (tl path)"

text \<open>
  \<open>produce(newBacklinkContent, recipe)\<close> for one match: the new content, or the error
  that the recipe threw.
\<close>

definition recipe :: "Descendant list \<Rightarrow> Path \<Rightarrow> string \<Rightarrow> js_error + Descendant list" where
  "recipe draftState path newTitle =
     (if length path \<le> 0 then Inr draftState
      else case resolve draftState path of
        Inl e \<Rightarrow> Inl e
      | Inr None \<Rightarrow> Inr draftState
      | Inr (Some linkNode) \<Rightarrow>
          if isElement linkNode then
            if isNoteLink linkNode
            then Inr (writeAt draftState path (updateLinkNode newTitle linkNode))
            else Inr draftState
          else Inr draftState)"

text \<open>The loop \<open>for (const match of backlink.matches)\<close>.\<close>

fun applyMatches :: "Descendant list \<Rightarrow> Match list \<Rightarrow> string \<Rightarrow> js_error + Descendant list" where
  "applyMatches newBacklinkContent [] newTitle = Inr newBacklinkContent"
| "applyMatches newBacklinkContent (m # rest) newTitle =
     (case recipe newBacklinkContent (match_path m) newTitle of
        Inl e \<Rightarrow> Inl e
      | Inr c \<Rightarrow> applyMatches c rest newTitle)"

text \<open>\<open>notes.find((note) => note.id === backlink.id)?.content\<close>.\<close>

definition findContent :: "Note list \<Rightarrow> string \<Rightarrow> Descendant list option" where
  "findContent notes i = map_option note_content (find (\<lambda>note. note_id note = i) notes)"

text \<open>
  The loop \<open>for (const backlink of backlinks)\<close>, threading the lines written with
  \<open>console.error\<close> and \<open>upsertData\<close>. An array is truthy, so the \<open>continue\<close>
  branch is taken exactly when no note has the identifier.
\<close>

fun backlinksLoop ::
  "User \<Rightarrow> Note list \<Rightarrow> string \<Rightarrow> Backlink list \<Rightarrow> string list \<times> UpsertRow list
     \<Rightarrow> js_error + string list \<times> UpsertRow list" where
  "backlinksLoop user notes newTitle [] acc = Inr acc"
| "backlinksLoop user notes newTitle (backlink # rest) (console, upsertData) =
     (case findContent notes (backlink_id backlink) of
        None \<Rightarrow>
          backlinksLoop user notes newTitle rest
            (console @ [''No backlink content found for note '' @ backlink_id backlink],
             upsertData)
      | Some backlinkContent \<Rightarrow>
          (case applyMatches backlinkContent (matches backlink) newTitle of
             Inl e \<Rightarrow> Inl e
           | Inr newBacklinkContent \<Rightarrow>
               backlinksLoop user notes newTitle rest
                 (console,
                  upsertData @
                    [\<lparr>row_id = backlink_id backlink, row_title = backlink_title backlink,
                      row_user_id = user_id user, row_content = newBacklinkContent\<rparr>])))"

text \<open>
  What a call of \<open>updateBacklinks\<close> did when it returned: the lines on the console and
  the batches handed to \<open>supabase.from('notes').upsert\<close>, one batch per call.
\<close>

record Effects =
  console_errors :: "string list"
  upserts :: "UpsertRow list list"

text \<open>
  The callback \<open>updateBacklinks\<close>, with the values it closes over (\<open>user\<close>,
  \<open>notes\<close>, \<open>backlinks\<close>) as parameters. \<open>Inl\<close> is a rejected promise: the
  error was thrown before the upsert.
\<close>

definition updateBacklinks ::
  "User option \<Rightarrow> Note list \<Rightarrow> Backlink list \<Rightarrow> string \<Rightarrow> js_error + Effects" where
  "updateBacklinks user notes backlinks newTitle =
     (case user of
        None \<Rightarrow> Inr \<lparr>console_errors = [], upserts = []\<rparr>
      | Some u \<Rightarrow>
          (case backlinksLoop u notes newTitle backlinks ([], []) of
             Inl e \<Rightarrow> Inl e
           | Inr (console, upsertData) \<Rightarrow>
               Inr \<lparr>console_errors = console, upserts = [upsertData]\<rparr>))"

text \<open>
  The hook \<open>useBacklinks(noteId)\<close>, with what \<open>useAuth\<close> and \<open>useNotes\<close> supply as
  parameters: it returns the backlinks and the callback over the same notes.
\<close>

definition useBacklinks ::
  "User option \<Rightarrow> Note list \<Rightarrow> string \<Rightarrow> Backlink list \<times> (string \<Rightarrow> js_error + Effects)" where
  "useBacklinks user notes noteId =
     (let backlinks = getBacklinks notes noteId
      in (backlinks, updateBacklinks user notes backlinks))"

section \<open>The documents of the concrete scenario\<close>

definition scenarioA :: Note where
  "scenarioA =
     \<lparr>note_id = ''a'', note_title = ''Old'',
      note_content =
        [Element (OtherElement ''paragraph'' []) None
           [Element (NoteLink ''b'' ''B'' True) None [Text ''B'']]],
      note_user_id = ''o''\<rparr>"

definition scenarioB :: Note where
  "scenarioB = \<lparr>note_id = ''b'', note_title = ''B'', note_content = [], note_user_id = ''o''\<rparr>"

section \<open>Vocabulary of the properties\<close>

text \<open>
  A tree as the editor builds it: no element carries a \<open>text\<close> property, so that
  \<open>Text.isText\<close> and \<open>Element.isElement\<close> exclude each other on every node.
\<close>

fun plain :: "Descendant \<Rightarrow> bool" where
  "plain (Text s) = True"
| "plain (Element d x cs) = (x = None \<and> list_all plain cs)"

text \<open>A document whose only top-level node is a link to \<open>b\<close>.\<close>

definition topLink :: Note where
  "topLink =
     \<lparr>note_id = ''a'', note_title = ''Old'',
      note_content = [Element (NoteLink ''b'' ''B'' True) None [Text ''B'']],
      note_user_id = ''o''\<rparr>"

text \<open>
  The recipe seen from one node: what \<open>produce\<close> makes of the node \<open>n\<close> when the
  rest of the path below it is \<open>p\<close>. It is a device of the proofs; lemma
  \<open>recipe_root\<close> shows that the recipe is this function at a root above the content.
\<close>

fun patchNode :: "string \<Rightarrow> Descendant \<Rightarrow> Path \<Rightarrow> js_error + Descendant" where
  "patchNode t n [] = Inr (updateLinkNode t n)"
| "patchNode t (Text s) (j # r) = Inl TypeError"
| "patchNode t (Element d x kids) (j # r) =
     (case js_index kids j of
        None \<Rightarrow> if r = [] then Inr (Element d x kids) else Inl TypeError
      | Some c \<Rightarrow>
          (case patchNode t c r of
             Inl e \<Rightarrow> Inl e
           | Inr c' \<Rightarrow> Inr (Element d x (kids[j := c']))))"

text \<open>The \<open>children\<close> and the \<open>text\<close> property of a node.\<close>

fun childrenOf :: "Descendant \<Rightarrow> Descendant list" where
  "childrenOf (Element d x cs) = cs"
| "childrenOf (Text s) = []"

fun textOf :: "Descendant \<Rightarrow> string option" where
  "textOf (Text s) = Some s"
| "textOf (Element d x cs) = x"

text \<open>A root element above the top-level sequence of a content.\<close>

definition root :: "Descendant list \<Rightarrow> Descendant" where
  "root cs = Element (OtherElement [] []) None cs"





text \<open>
  Inputs of the rewriter used below: a document without any link, a document whose
  link has two text children, and a content whose link to \<open>b\<close> has an element child
  that holds a link to \<open>c\<close>.
\<close>

definition staleNote :: Note where
  "staleNote =
     \<lparr>note_id = ''c'', note_title = ''C'',
      note_content = [Element (OtherElement ''paragraph'' []) None [Text ''x'']],
      note_user_id = ''o''\<rparr>"

definition twoTexts :: Note where
  "twoTexts =
     \<lparr>note_id = ''a'', note_title = ''Old'',
      note_content =
        [Element (OtherElement ''paragraph'' []) None
           [Element (NoteLink ''b'' ''Bob'' True) None [Text ''B'', Text ''ob'']]],
      note_user_id = ''o''\<rparr>"

definition linkInBold :: "Descendant list" where
  "linkInBold =
     [Element (OtherElement ''paragraph'' []) None
        [Element (NoteLink ''b'' ''B'' True) None
           [Element (OtherElement ''bold'' []) None
              [Element (NoteLink ''c'' ''C'' False) None [Text ''C'']]]]]"

section \<open>The hook and its parts\<close>

lemma useBacklinks_parts:
  "fst (useBacklinks user notes noteId) = getBacklinks notes noteId"
  "snd (useBacklinks user notes noteId) = updateBacklinks user notes (getBacklinks notes noteId)"
  by (simp_all add: useBacklinks_def Let_def)

lemma scenario_finder:
  "getBacklinks [scenarioA, scenarioB] ''b'' =
     [\<lparr>backlink_id = ''a'', backlink_title = ''Old'',
       matches = [\<lparr>match_context = ''B'', match_path = [0, 0]\<rparr>]\<rparr>]"
  by (simp add: scenarioA_def scenarioB_def getBacklinkMatches_def)

section \<open>The finder's loops, by membership\<close>

lemma isNoteLink_isElement: "isNoteLink n \<Longrightarrow> isElement n"
  by (cases n) auto

lemma in_helperLoop:
  "m \<in> set (helperLoop node cs index noteId path) \<longleftrightarrow>
     (\<exists>k<length cs. isElement (cs ! k) \<and>
        (m = \<lparr>match_context = node_string node, match_path = path @ [index + k]\<rparr>
           \<and> isNoteLink (cs ! k) \<and> noteIdOf (cs ! k) = Some noteId \<and> node_string (cs ! k) \<noteq> []
         \<or> m \<in> set (getBacklinkMatchesHelper (cs ! k) noteId (path @ [index + k]))))"
proof (induction cs arbitrary: index)
  case Nil
  then show ?case by simp
next
  case (Cons c cs)
  show ?case
    by (simp add: Cons.IH Ex_less_Suc2 del: isElement.simps)
qed

lemma in_matchesFrom:
  "m \<in> set (matchesFrom nodes index noteId) \<longleftrightarrow>
     (\<exists>k<length nodes. m \<in> set (getBacklinkMatchesHelper (nodes ! k) noteId [index + k]))"
proof (induction nodes arbitrary: index)
  case Nil
  then show ?case by simp
next
  case (Cons c cs)
  show ?case
    by (simp add: Cons.IH Ex_less_Suc2)
qed

lemma getBacklinks_filter:
  "getBacklinks notes noteId =
     map (\<lambda>note. \<lparr>backlink_id = note_id note, backlink_title = note_title note,
                  matches = getBacklinkMatches (note_content note) noteId\<rparr>)
       (filter (\<lambda>note. getBacklinkMatches (note_content note) noteId \<noteq> []) notes)"
  by (induction "notes") (simp_all add: Let_def)

section \<open>Every match is a link below a visited parent\<close>

lemma descend_snoc:
  "descend n (q @ [i]) =
     (case descend n q of Inl e \<Rightarrow> Inl e | Inr r \<Rightarrow> descend r [i])"
  by (induction n q rule: descend.induct) simp_all

lemma descend_None_Some: "descend None q = Inr (Some n) \<Longrightarrow> False"
  by (cases q) simp_all

lemma helper_sound:
  "m \<in> set (getBacklinkMatchesHelper node noteId path) \<Longrightarrow>
   \<exists>q i parent link.
      match_path m = path @ q @ [i] \<and> descend (Some node) q = Inr (Some parent)
      \<and> \<not> isText parent \<and> descend (Some parent) [i] = Inr (Some link)
      \<and> isNoteLink link \<and> noteIdOf link = Some noteId \<and> node_string link \<noteq> []
      \<and> match_context m = node_string parent"
proof (induction node arbitrary: m path)
  case (Text s)
  then show ?case by simp
next
  case (Element d x cs)
  show ?case
  proof (cases x)
    case (Some s)
    with Element.prems show ?thesis by simp
  next
    case None
    with Element.prems obtain k where k: "k < length cs" "isElement (cs ! k)"
      and m: "m = \<lparr>match_context = node_string (Element d None cs), match_path = path @ [k]\<rparr>
                \<and> isNoteLink (cs ! k) \<and> noteIdOf (cs ! k) = Some noteId \<and> node_string (cs ! k) \<noteq> []
              \<or> m \<in> set (getBacklinkMatchesHelper (cs ! k) noteId (path @ [k]))"
      by (auto simp: in_helperLoop)
    from m show ?thesis
    proof
      assume direct: "m = \<lparr>match_context = node_string (Element d None cs), match_path = path @ [k]\<rparr>
                \<and> isNoteLink (cs ! k) \<and> noteIdOf (cs ! k) = Some noteId \<and> node_string (cs ! k) \<noteq> []"
      have "match_path m = path @ [] @ [k]" using direct by simp
      moreover have "descend (Some (Element d x cs)) [] = Inr (Some (Element d x cs))" by simp
      moreover have "\<not> isText (Element d x cs)" using None by simp
      moreover have "descend (Some (Element d x cs)) [k] = Inr (Some (cs ! k))"
        using k by (simp add: js_index_def)
      moreover have "match_context m = node_string (Element d x cs)" using direct None by simp
      ultimately show ?thesis using direct by blast
    next
      assume below: "m \<in> set (getBacklinkMatchesHelper (cs ! k) noteId (path @ [k]))"
      have "cs ! k \<in> set cs" using k by simp
      from Element.IH [OF this below] obtain q i parent link where
        r: "match_path m = (path @ [k]) @ q @ [i]" "descend (Some (cs ! k)) q = Inr (Some parent)"
           "\<not> isText parent" "descend (Some parent) [i] = Inr (Some link)"
           "isNoteLink link" "noteIdOf link = Some noteId" "node_string link \<noteq> []"
           "match_context m = node_string parent"
        by blast
      have "match_path m = path @ (k # q) @ [i]" using r(1) by simp
      moreover have "descend (Some (Element d x cs)) (k # q) = Inr (Some parent)"
        using k r(2) by (simp add: js_index_def)
      ultimately show ?thesis using r(3-8) by blast
    qed
  qed
qed

lemma matches_sound:
  assumes "m \<in> set (getBacklinkMatches nodes noteId)"
  shows "\<exists>p i parent link.
      match_path m = p @ [i] \<and> p \<noteq> [] \<and> resolve nodes p = Inr (Some parent)
      \<and> \<not> isText parent \<and> descend (Some parent) [i] = Inr (Some link)
      \<and> isNoteLink link \<and> noteIdOf link = Some noteId \<and> node_string link \<noteq> []
      \<and> match_context m = node_string parent
      \<and> resolve nodes (match_path m) = Inr (Some link)"
proof -
  from assms obtain k where k: "k < length nodes"
    and m: "m \<in> set (getBacklinkMatchesHelper (nodes ! k) noteId [k])"
    by (auto simp: getBacklinkMatches_def in_matchesFrom)
  from helper_sound [OF m] obtain q i parent link where
    r: "match_path m = [k] @ q @ [i]" "descend (Some (nodes ! k)) q = Inr (Some parent)"
       "\<not> isText parent" "descend (Some parent) [i] = Inr (Some link)"
       "isNoteLink link" "noteIdOf link = Some noteId" "node_string link \<noteq> []"
       "match_context m = node_string parent"
    by blast
  have p: "match_path m = (k # q) @ [i]" using r(1) by simp
  have res: "resolve nodes (k # q) = Inr (Some parent)"
    using k r(2) by (simp add: resolve_def js_index_def)
  have "resolve nodes (match_path m) = Inr (Some link)"
    using k r(2,4) unfolding p by (simp add: resolve_def js_index_def descend_snoc)
  with p res r(3-8) show ?thesis by blast
qed

section \<open>Every link below the top level of a plain tree is matched\<close>

lemma helper_complete:
  "plain node \<Longrightarrow> descend (Some node) (q @ [i]) = Inr (Some link) \<Longrightarrow>
   isNoteLink link \<Longrightarrow> noteIdOf link = Some noteId \<Longrightarrow> node_string link \<noteq> [] \<Longrightarrow>
   \<exists>m \<in> set (getBacklinkMatchesHelper node noteId path). match_path m = path @ q @ [i]"
proof (induction q arbitrary: node path)
  case Nil
  from Nil.prems(1,2) obtain d cs where node: "node = Element d None cs"
    by (cases node) auto
  with Nil.prems(2) have k: "i < length cs" "cs ! i = link"
    by (auto simp: js_index_def split: if_splits)
  have "\<lparr>match_context = node_string node, match_path = path @ [i]\<rparr>
          \<in> set (getBacklinkMatchesHelper node noteId path)"
    unfolding node getBacklinkMatchesHelper.simps in_helperLoop
    using k Nil.prems(3-5) isNoteLink_isElement [of link] by auto
  then show ?case by force
next
  case (Cons j q)
  from Cons.prems(1,2) obtain d cs where node: "node = Element d None cs"
    by (cases node) auto
  with Cons.prems(2) have d: "descend (js_index cs j) (q @ [i]) = Inr (Some link)"
    by simp
  then have j: "j < length cs"
    by (auto simp: js_index_def split: if_splits dest: descend_None_Some)
  with d have d': "descend (Some (cs ! j)) (q @ [i]) = Inr (Some link)"
    by (simp add: js_index_def)
  then have el: "isElement (cs ! j)"
    by (cases "cs ! j"; cases q) auto
  have "plain (cs ! j)"
    using Cons.prems(1) j unfolding node by (simp add: list_all_length)
  from Cons.IH [OF this d' Cons.prems(3-5), of "path @ [j]"]
  obtain m where m: "m \<in> set (getBacklinkMatchesHelper (cs ! j) noteId (path @ [j]))"
      "match_path m = (path @ [j]) @ q @ [i]"
    by blast
  have "m \<in> set (getBacklinkMatchesHelper node noteId path)"
    unfolding node getBacklinkMatchesHelper.simps in_helperLoop
    using j el m(1) by auto
  with m(2) show ?case by auto
qed

lemma matches_complete:
  assumes "list_all plain nodes" "2 \<le> length p" "resolve nodes p = Inr (Some link)"
    "isNoteLink link" "noteIdOf link = Some noteId" "node_string link \<noteq> []"
  shows "\<exists>m \<in> set (getBacklinkMatches nodes noteId). match_path m = p"
proof -
  from assms(2) obtain k r where p: "p = k # r" and "1 \<le> length r"
    by (cases p) auto
  then have "r \<noteq> []" by auto
  then obtain q i where r: "r = q @ [i]"
    by (cases r rule: rev_cases) auto
  from assms(3) have d: "descend (js_index nodes k) (q @ [i]) = Inr (Some link)"
    by (simp add: resolve_def p r)
  then have k: "k < length nodes"
    by (auto simp: js_index_def split: if_splits dest: descend_None_Some)
  with d have d': "descend (Some (nodes ! k)) (q @ [i]) = Inr (Some link)"
    by (simp add: js_index_def)
  have "plain (nodes ! k)" using assms(1) k by (simp add: list_all_length)
  from helper_complete [OF this d' assms(4-6), of "[k]"]
  obtain m where m: "m \<in> set (getBacklinkMatchesHelper (nodes ! k) noteId [k])"
      "match_path m = [k] @ q @ [i]"
    by blast
  have "m \<in> set (getBacklinkMatches nodes noteId)"
    unfolding getBacklinkMatches_def in_matchesFrom using k m(1) by auto
  with m(2) show ?thesis by (auto simp: p r)
qed

lemma scenario_matches:
  "getBacklinkMatches (note_content scenarioA) ''b'' =
     [\<lparr>match_context = ''B'', match_path = [0, 0]\<rparr>]"
  by (simp add: scenarioA_def getBacklinkMatches_def)

lemma scenario_resolve:
  "resolve (note_content scenarioA) [0, 0] =
     Inr (Some (Element (NoteLink ''b'' ''B'' True) None [Text ''B'']))"
  by (simp add: scenarioA_def resolve_def js_index_def)

section \<open>The recipe, structurally\<close>

lemma recipe_Nil: "recipe cs [] t = Inr cs" by (simp add: recipe_def)

lemma updateLinkNode_other: "\<not> isNoteLink n \<Longrightarrow> updateLinkNode t n = n"
  by (induction t n rule: updateLinkNode.induct) auto

lemma update_same: "cs ! i = n \<Longrightarrow> cs[i := n] = cs"
  by auto

lemma recipe_single: "recipe cs [i] t = Inr (cs[i := updateLinkNode t (cs ! i)])"
proof (cases "i < length cs")
  case True
  then show ?thesis
    by (cases "cs ! i")
       (auto simp: recipe_def resolve_def js_index_def updateLinkNode_other update_same)
next
  case False
  then show ?thesis by (simp add: recipe_def resolve_def js_index_def list_update_beyond)
qed

lemma recipe_deep: "recipe cs (i # j # r) t =
   (case js_index cs i of
      None \<Rightarrow> Inl TypeError
    | Some (Text s) \<Rightarrow> Inl TypeError
    | Some (Element d x kids) \<Rightarrow>
        (case recipe kids (j # r) t of Inl e \<Rightarrow> Inl e | Inr kids' \<Rightarrow> Inr (cs[i := Element d x kids'])))"
proof (cases "js_index cs i")
  case None
  then show ?thesis by (simp add: recipe_def resolve_def)
next
  case (Some c)
  then have i: "i < length cs" "cs ! i = c" by (auto simp: js_index_def split: if_splits)
  show ?thesis
  proof (cases c)
    case (Text s)
    with Some show ?thesis by (simp add: recipe_def resolve_def)
  next
    case (Element d x kids)
    have same: "cs[i := Element d x kids] = cs" using i Element by (simp add: update_same)
    show ?thesis using Some Element same
      by (auto simp: recipe_def resolve_def split: sum.splits option.splits)
  qed
qed

lemma recipe_Cons:
  "recipe cs (i # r) t =
     (case js_index cs i of
        None \<Rightarrow> if r = [] then Inr cs else Inl TypeError
      | Some c \<Rightarrow> (case patchNode t c r of Inl e \<Rightarrow> Inl e | Inr c' \<Rightarrow> Inr (cs[i := c'])))"
proof (induction r arbitrary: cs i)
  case Nil
  show ?case by (auto simp: recipe_single js_index_def list_update_beyond)
next
  case (Cons j r)
  show ?case
    by (auto simp: recipe_deep Cons.IH split: option.splits Descendant.splits sum.splits)
qed

lemma recipe_root:
  "recipe cs p t = (case patchNode t (root cs) p of Inl e \<Rightarrow> Inl e | Inr n \<Rightarrow> Inr (childrenOf n))"
  by (cases p) (auto simp: recipe_Nil recipe_Cons root_def split: option.splits sum.splits)


lemma setText_idem: "setText t (setText t c) = setText t c"
  by (cases c) simp_all

lemma updateLinkNode_idem: "updateLinkNode t (updateLinkNode t n) = updateLinkNode t n"
  by (induction t n rule: updateLinkNode.induct) (simp_all add: setText_idem)

lemma updateLinkNode_setText:
  "updateLinkNode t (setText t c) = setText t (updateLinkNode t c)"
  by (induction t c rule: updateLinkNode.induct) simp_all

lemma textOf_updateLinkNode: "textOf (updateLinkNode t n) = textOf n"
  by (induction t n rule: updateLinkNode.induct) simp_all

lemma setText_fixed_iff: "setText t c = c \<longleftrightarrow> textOf c = Some t"
  by (cases c) auto

lemma patchNode_Cons_Inr:
  assumes "patchNode t n (j # r) = Inr n'"
  obtains d x kids where "n = Element d x kids" "length kids \<le> j" "r = []" "n' = n"
  | d x kids c' where "n = Element d x kids" "j < length kids"
      "patchNode t (kids ! j) r = Inr c'" "n' = Element d x (kids[j := c'])"
proof (cases n)
  case (Text s)
  with assms show ?thesis by simp
next
  case (Element d x kids)
  show ?thesis
  proof (cases "j < length kids")
    case True
    with assms Element obtain c' where "patchNode t (kids ! j) r = Inr c'"
      "n' = Element d x (kids[j := c'])"
      by (auto simp: js_index_def split: sum.splits)
    with that(2) Element True show ?thesis by blast
  next
    case False
    with assms Element have "r = []" "n' = n"
      by (auto simp: js_index_def split: if_splits)
    with that(1) Element False show ?thesis by auto
  qed
qed

lemma patchNode_Cons_in:
  "j < length kids \<Longrightarrow>
   patchNode t (Element d x kids) (j # r) =
     (case patchNode t (kids ! j) r of
        Inl e \<Rightarrow> Inl e
      | Inr c' \<Rightarrow> Inr (Element d x (kids[j := c'])))"
  by (simp add: js_index_def)

lemma patchNode_Cons_out:
  "length kids \<le> j \<Longrightarrow>
   patchNode t (Element d x kids) (j # r) =
     (if r = [] then Inr (Element d x kids) else Inl TypeError)"
  by (simp add: js_index_def)

declare patchNode.simps(3) [simp del]

lemma patchNode_fixed_in:
  assumes "j < length kids"
  shows "patchNode t (Element d x kids) (j # r) = Inr (Element d x kids)
         \<longleftrightarrow> patchNode t (kids ! j) r = Inr (kids ! j)"
proof
  assume "patchNode t (Element d x kids) (j # r) = Inr (Element d x kids)"
  then obtain c' where c: "patchNode t (kids ! j) r = Inr c'" "kids[j := c'] = kids"
    using assms by (auto simp: patchNode_Cons_in split: sum.splits)
  from c(2) assms have "c' = kids ! j" by (metis nth_list_update_eq)
  with c(1) show "patchNode t (kids ! j) r = Inr (kids ! j)" by simp
next
  assume "patchNode t (kids ! j) r = Inr (kids ! j)"
  then show "patchNode t (Element d x kids) (j # r) = Inr (Element d x kids)"
    using assms by (simp add: patchNode_Cons_in)
qed

lemma patchNode_textOf: "patchNode t c p = Inr c' \<Longrightarrow> textOf c' = textOf c"
proof (cases p)
  case Nil
  assume "patchNode t c p = Inr c'"
  with Nil show ?thesis by (auto simp: textOf_updateLinkNode)
next
  case (Cons j r)
  assume "patchNode t c p = Inr c'"
  then show ?thesis unfolding Cons by (rule patchNode_Cons_Inr) auto
qed

lemma patchNode_setText:
  assumes "patchNode t c r = Inr c"
  shows "patchNode t (setText t c) r = Inr (setText t c)"
proof (cases r)
  case Nil
  with assms have "updateLinkNode t c = c" by simp
  then show ?thesis using Nil by (simp add: updateLinkNode_setText)
next
  case (Cons k r')
  with assms obtain d x kids where c: "c = Element d x kids" by (cases c) auto
  show ?thesis
  proof (cases "k < length kids")
    case True
    with assms show ?thesis
      unfolding Cons c by (simp add: patchNode_fixed_in)
  next
    case False
    with assms show ?thesis
      unfolding Cons c by (simp add: patchNode_Cons_out split: if_splits)
  qed
qed

lemma patchNode_updateLinkNode:
  assumes "patchNode t n q = Inr n"
  shows "patchNode t (updateLinkNode t n) q = Inr (updateLinkNode t n)"
proof (cases q)
  case Nil
  then show ?thesis by (simp add: updateLinkNode_idem)
next
  case (Cons j r)
  with assms obtain d x kids where n: "n = Element d x kids" by (cases n) auto
  show ?thesis
  proof (cases d)
    case (OtherElement g fs)
    with assms n show ?thesis by simp
  next
    case (NoteLink i nt b)
    show ?thesis
    proof (cases "j < length kids")
      case True
      with assms have fx: "patchNode t (kids ! j) r = Inr (kids ! j)"
        unfolding Cons n by (simp add: patchNode_fixed_in)
      show ?thesis
        unfolding Cons n NoteLink using True fx
        by (simp add: patchNode_fixed_in patchNode_setText)
    next
      case False
      with assms show ?thesis
        unfolding Cons n NoteLink by (simp add: patchNode_Cons_out split: if_splits)
    qed
  qed
qed

lemma patchNode_idem: "patchNode t n p = Inr n' \<Longrightarrow> patchNode t n' p = Inr n'"
proof (induction p arbitrary: n n')
  case Nil
  then show ?case by (auto simp: updateLinkNode_idem)
next
  case (Cons j r)
  from Cons.prems show ?case
  proof (rule patchNode_Cons_Inr)
    fix d x kids
    assume "n = Element d x kids" "length kids \<le> j" "r = []" "n' = n"
    then show ?thesis by (simp add: patchNode_Cons_out)
  next
    fix d x kids c'
    assume a: "n = Element d x kids" "j < length kids"
      "patchNode t (kids ! j) r = Inr c'" "n' = Element d x (kids[j := c'])"
    from Cons.IH [OF a(3)] have "patchNode t c' r = Inr c'" .
    then show ?thesis using a(2,4) by (simp add: patchNode_Cons_in)
  qed
qed

lemma patchNode_keeps:
  "patchNode t n q = Inr n \<Longrightarrow> patchNode t n p = Inr n' \<Longrightarrow> patchNode t n' q = Inr n'"
proof (induction p arbitrary: n n' q)
  case Nil
  then show ?case by (auto simp: patchNode_updateLinkNode)
next
  case (Cons i p)
  from Cons.prems(2) show ?case
  proof (rule patchNode_Cons_Inr)
    fix d x kids
    assume "n = Element d x kids" "length kids \<le> i" "p = []" "n' = n"
    with Cons.prems(1) show ?thesis by simp
  next
    fix d x kids c'
    assume a: "n = Element d x kids" "i < length kids"
      "patchNode t (kids ! i) p = Inr c'" "n' = Element d x (kids[i := c'])"
    show ?thesis
    proof (cases q)
      case Nil
      with Cons.prems(1) have fx: "updateLinkNode t n = n" by simp
      show ?thesis
      proof (cases d)
        case (OtherElement g fs)
        with a(4) Nil show ?thesis by simp
      next
        case (NoteLink li nt b)
        with fx a(1) have nt: "nt = t" and kids: "b \<Longrightarrow> map (setText t) kids = kids"
          by (auto split: if_splits)
        have "map (setText t) (kids[i := c']) = kids[i := c']" if b
        proof -
          from kids [OF that] a(2) have "setText t (kids ! i) = kids ! i"
            by (metis nth_map)
          then have "textOf (kids ! i) = Some t" by (simp add: setText_fixed_iff)
          with patchNode_textOf [OF a(3)] have "setText t c' = c'"
            by (simp add: setText_fixed_iff)
          with kids [OF that] show ?thesis by (simp add: map_update)
        qed
        then show ?thesis using a(4) Nil NoteLink nt by auto
      qed
    next
      case (Cons j q')
      show ?thesis
      proof (cases "j < length kids")
        case False
        with Cons.prems(1) a(1) show ?thesis
          unfolding Cons a(4) by (simp add: patchNode_Cons_out split: if_splits)
      next
        case True
        with Cons.prems(1) a(1) have fx: "patchNode t (kids ! j) q' = Inr (kids ! j)"
          unfolding Cons by (simp add: patchNode_fixed_in)
        show ?thesis
        proof (cases "j = i")
          case True
          with fx a(3) Cons.IH have "patchNode t c' q' = Inr c'" by blast
          then show ?thesis
            unfolding Cons a(4) using a(2) True by (simp add: patchNode_fixed_in)
        next
          case False
          then show ?thesis
            unfolding Cons a(4) using True fx by (simp add: patchNode_fixed_in)
        qed
      qed
    qed
  qed
qed


lemma patchNode_root: "patchNode t (root cs) p = Inr n \<Longrightarrow> n = root (childrenOf n)"
proof (cases p)
  case Nil
  assume "patchNode t (root cs) p = Inr n"
  with Nil show ?thesis by (auto simp: root_def)
next
  case (Cons j r)
  assume "patchNode t (root cs) p = Inr n"
  then show ?thesis unfolding Cons by (rule patchNode_Cons_Inr) (auto simp: root_def)
qed

lemma recipe_iff: "recipe cs p t = Inr cs' \<longleftrightarrow> patchNode t (root cs) p = Inr (root cs')"
proof
  assume "recipe cs p t = Inr cs'"
  then obtain n where n: "patchNode t (root cs) p = Inr n" "childrenOf n = cs'"
    by (auto simp: recipe_root split: sum.splits)
  with patchNode_root [OF n(1)] show "patchNode t (root cs) p = Inr (root cs')" by simp
next
  assume "patchNode t (root cs) p = Inr (root cs')"
  then show "recipe cs p t = Inr cs'" by (simp add: recipe_root root_def)
qed

lemma recipe_idem: "recipe cs p t = Inr cs' \<Longrightarrow> recipe cs' p t = Inr cs'"
  unfolding recipe_iff by (rule patchNode_idem)

lemma recipe_keeps:
  "recipe cs q t = Inr cs \<Longrightarrow> recipe cs p t = Inr cs' \<Longrightarrow> recipe cs' q t = Inr cs'"
  unfolding recipe_iff by (rule patchNode_keeps)

lemma applyMatches_fixes:
  "applyMatches cs ms t = Inr cs' \<Longrightarrow> \<forall>q \<in> Q. recipe cs q t = Inr cs \<Longrightarrow>
   \<forall>q \<in> Q \<union> match_path ` set ms. recipe cs' q t = Inr cs'"
proof (induction ms arbitrary: cs Q)
  case Nil
  then show ?case by simp
next
  case (Cons m ms)
  from Cons.prems(1) obtain c1 where c1: "recipe cs (match_path m) t = Inr c1"
    and rest: "applyMatches c1 ms t = Inr cs'"
    by (auto split: sum.splits)
  have "\<forall>q \<in> insert (match_path m) Q. recipe c1 q t = Inr c1"
    using recipe_idem [OF c1] recipe_keeps [OF _ c1] Cons.prems(2) by auto
  from Cons.IH [OF rest this] show ?case by auto
qed

lemma applyMatches_of_fixed:
  "\<forall>m \<in> set ms. recipe cs (match_path m) t = Inr cs \<Longrightarrow> applyMatches cs ms t = Inr cs"
  by (induction ms) simp_all

lemma applyMatches_idem:
  assumes "applyMatches cs ms t = Inr cs'"
  shows "applyMatches cs' ms t = Inr cs'"
proof -
  from applyMatches_fixes [OF assms, of "{}"]
  have "\<forall>m \<in> set ms. recipe cs' (match_path m) t = Inr cs'" by auto
  then show ?thesis by (rule applyMatches_of_fixed)
qed








section \<open>What a patch leaves and what it writes\<close>

lemma recipe_noop:
  "recipe content [] t = Inr content"
  "path \<noteq> [] \<Longrightarrow> resolve content path = Inr None \<Longrightarrow> recipe content path t = Inr content"
  "path \<noteq> [] \<Longrightarrow> resolve content path = Inr (Some n) \<Longrightarrow> \<not> isNoteLink n \<Longrightarrow>
     recipe content path t = Inr content"
  by (simp_all add: recipe_def)

lemma node_string_setText: "node_string (setText t c) = t"
  by (cases c) simp_all

lemma mirrored_text:
  "node_string (updateLinkNode newTitle (Element (NoteLink i t True) None cs)) =
     concat (replicate (length cs) newTitle)"
  by (induction cs) (simp_all add: node_string_setText)

lemma twoTexts_finder:
  "getBacklinks [twoTexts] ''b'' =
     [\<lparr>backlink_id = ''a'', backlink_title = ''Old'',
       matches = [\<lparr>match_context = ''Bob'', match_path = [0, 0]\<rparr>]\<rparr>]"
  by (simp add: twoTexts_def getBacklinkMatches_def)




section \<open>The rewriter on the finder's backlinks\<close>





section \<open>Every applied match leaves its link retitled\<close>
















section \<open>The claims\<close>

text \<open>
  C1, as stated, fails: the finder tests only the children of the nodes it visits, so a
  link that is itself a top-level node of the content (path of length 1) is never
  tested. The document \<open>topLink\<close> holds such a link to \<open>b\<close> with the text \<open>B\<close>, and
  the finder returns no backlink for it.
\<close>

theorem C1_top_level_link_missed:
  "resolve (note_content topLink) [0] =
     Inr (Some (Element (NoteLink ''b'' ''B'' True) None [Text ''B'']))
   \<and> isNoteLink (Element (NoteLink ''b'' ''B'' True) None [Text ''B''])
   \<and> noteIdOf (Element (NoteLink ''b'' ''B'' True) None [Text ''B'']) = Some ''b''
   \<and> node_string (Element (NoteLink ''b'' ''B'' True) None [Text ''B'']) = ''B''
   \<and> getBacklinks [topLink] ''b'' = []"
  by (simp add: topLink_def resolve_def js_index_def getBacklinkMatches_def)

text \<open>
  C1, amended. Let D be a document of the collection whose content is a plain tree. For
  every link node of D below the top level (a path \<open>p\<close> of length at least 2 that
  resolves to it) whose target is \<open>noteId\<close> and whose flattened text is not empty, the
  finder's result holds the backlink of D (its identifier, its title, all its matches),
  and one of its matches has the path \<open>p\<close>, which resolves to that link. Read
  contrapositively: when the result holds no backlink of D, no link below the top level
  of D has the target \<open>noteId\<close> and a non-empty text.
\<close>

theorem C1_links_below_top_level_found:
  assumes "D \<in> set notes" and "list_all plain (note_content D)" and "2 \<le> length p"
    and "resolve (note_content D) p = Inr (Some link)"
    and "isNoteLink link" and "noteIdOf link = Some noteId" and "node_string link \<noteq> []"
  shows "\<exists>b \<in> set (getBacklinks notes noteId).
           b = \<lparr>backlink_id = note_id D, backlink_title = note_title D,
                matches = getBacklinkMatches (note_content D) noteId\<rparr>
           \<and> (\<exists>m \<in> set (matches b). match_path m = p
                 \<and> resolve (note_content D) (match_path m) = Inr (Some link))"
proof -
  from matches_complete [OF assms(2-7)]
  obtain m where m: "m \<in> set (getBacklinkMatches (note_content D) noteId)" "match_path m = p"
    by blast
  then have "getBacklinkMatches (note_content D) noteId \<noteq> []" by auto
  with assms(1) have
    "\<lparr>backlink_id = note_id D, backlink_title = note_title D,
      matches = getBacklinkMatches (note_content D) noteId\<rparr> \<in> set (getBacklinks notes noteId)"
    unfolding getBacklinks_filter by auto
  with m assms(4) show ?thesis by auto
qed

theorem C1_links_below_top_level_found_witness:
  "scenarioA \<in> set [scenarioA, scenarioB]
   \<and> list_all plain (note_content scenarioA)
   \<and> 2 \<le> length [0, 0 :: nat]
   \<and> resolve (note_content scenarioA) [0, 0] =
       Inr (Some (Element (NoteLink ''b'' ''B'' True) None [Text ''B'']))
   \<and> isNoteLink (Element (NoteLink ''b'' ''B'' True) None [Text ''B''])
   \<and> noteIdOf (Element (NoteLink ''b'' ''B'' True) None [Text ''B'']) = Some ''b''
   \<and> node_string (Element (NoteLink ''b'' ''B'' True) None [Text ''B'']) \<noteq> []
   \<and> (\<exists>b \<in> set (getBacklinks [scenarioA, scenarioB] ''b'').
           b = \<lparr>backlink_id = note_id scenarioA, backlink_title = note_title scenarioA,
                matches = getBacklinkMatches (note_content scenarioA) ''b''\<rparr>
           \<and> (\<exists>m \<in> set (matches b). match_path m = [0, 0]
                 \<and> resolve (note_content scenarioA) (match_path m) =
                     Inr (Some (Element (NoteLink ''b'' ''B'' True) None [Text ''B'']))))"
proof -
  have h1: "scenarioA \<in> set [scenarioA, scenarioB]" by simp
  have h2: "list_all plain (note_content scenarioA)" by (simp add: scenarioA_def)
  have h3: "2 \<le> length [0, 0 :: nat]" by simp
  have h5: "isNoteLink (Element (NoteLink ''b'' ''B'' True) None [Text ''B''])" by simp
  have h6: "noteIdOf (Element (NoteLink ''b'' ''B'' True) None [Text ''B'']) = Some ''b''" by simp
  have h7: "node_string (Element (NoteLink ''b'' ''B'' True) None [Text ''B'']) \<noteq> []" by simp
  from C1_links_below_top_level_found [OF h1 h2 h3 scenario_resolve h5 h6 h7]
  show ?thesis using h1 h2 h3 scenario_resolve h5 h6 h7 by blast
qed

text \<open>
  C2. The claim asks that a path which fails to resolve at any step be a no-op for its
  match and never stop the batch. The recipe does return the content unchanged for an
  empty path and when the last step ends out of range or on a node that is not a link
  (lemma \<open>recipe_noop\<close>). When an earlier step lands on a text node (path
  \<open>[0, 0, 0]\<close> below) or out of range (path \<open>[1, 0]\<close>), reading \<open>children\<close> throws:
  the error leaves \<open>updateBacklinks\<close>, the batch stops, and the second backlink, whose
  patch would succeed, is never upserted.
\<close>

theorem C2_unresolvable_path_throws:
  "recipe (note_content staleNote) [0, 0, 0] ''Bee'' = Inl TypeError
   \<and> recipe (note_content staleNote) [1, 0] ''Bee'' = Inl TypeError
   \<and> updateBacklinks (Some u) [staleNote, scenarioA]
        [\<lparr>backlink_id = ''c'', backlink_title = ''C'',
          matches = [\<lparr>match_context = ''x'', match_path = [0, 0, 0]\<rparr>]\<rparr>,
         \<lparr>backlink_id = ''a'', backlink_title = ''Old'',
          matches = [\<lparr>match_context = ''B'', match_path = [0, 0]\<rparr>]\<rparr>]
        ''Bee'' = Inl TypeError"
  by (simp add: staleNote_def recipe_def resolve_def js_index_def updateBacklinks_def
      findContent_def)

text \<open>
  C3. The claim asks that the flattened text of a patched link with \<open>isTextTitle\<close>
  equal the new title for any number of children. The loop assigns the title to every
  child, so the flattened text is the title once per child: with the two text children
  \<open>B\<close> and \<open>ob\<close> the hook stores a link whose text is \<open>BeeBee\<close>, and in general the
  text is the title repeated \<open>length cs\<close> times (the new title only for one child).
\<close>

theorem C3_two_text_children_repeat_title:
  "snd (useBacklinks (Some u) [twoTexts] ''b'') ''Bee'' =
     Inr \<lparr>console_errors = [],
          upserts = [[\<lparr>row_id = ''a'', row_title = ''Old'', row_user_id = user_id u,
                      row_content =
                        [Element (OtherElement ''paragraph'' []) None
                           [Element (NoteLink ''b'' ''Bee'' True) None
                              [Text ''Bee'', Text ''Bee'']]]\<rparr>]]\<rparr>
   \<and> node_string (Element (NoteLink ''b'' ''Bee'' True) None [Text ''Bee'', Text ''Bee'']) =
       ''BeeBee''
   \<and> node_string (updateLinkNode newTitle (Element (NoteLink i t True) None cs)) =
       concat (replicate (length cs) newTitle)"
  unfolding useBacklinks_parts twoTexts_finder mirrored_text
  by (simp add: twoTexts_def updateBacklinks_def findContent_def recipe_def resolve_def
      js_index_def)

text \<open>
  C4. The claim asks that only the text-node children of a patched link have their text
  replaced, and that element children stay as they are, with no field added. The loop
  assigns \<open>text\<close> to every child without asking for its variant. In \<open>linkInBold\<close> the
  link to \<open>b\<close> has an element child; after the patch that child carries the \<open>text\<close>
  \<open>Bee\<close>, so \<open>Text.isText\<close> holds of it, and the finder, which found the link to
  \<open>c\<close> inside it before the patch, no longer finds it.
\<close>

theorem C4_element_child_gains_text:
  "recipe linkInBold [0, 0] ''Bee''
   = Inr [Element (OtherElement ''paragraph'' []) None
            [Element (NoteLink ''b'' ''Bee'' True) None
               [Element (OtherElement ''bold'' []) (Some ''Bee'')
                  [Element (NoteLink ''c'' ''C'' False) None [Text ''C'']]]]]
   \<and> resolve linkInBold [0, 0, 0]
       = Inr (Some (Element (OtherElement ''bold'' []) None
                      [Element (NoteLink ''c'' ''C'' False) None [Text ''C'']]))
   \<and> \<not> isText (Element (OtherElement ''bold'' []) None
                    [Element (NoteLink ''c'' ''C'' False) None [Text ''C'']])
   \<and> isText (Element (OtherElement ''bold'' []) (Some ''Bee'')
                 [Element (NoteLink ''c'' ''C'' False) None [Text ''C'']])
   \<and> getBacklinkMatches linkInBold ''c''
       = [\<lparr>match_context = ''C'', match_path = [0, 0, 0, 0]\<rparr>]
   \<and> getBacklinkMatches
         [Element (OtherElement ''paragraph'' []) None
            [Element (NoteLink ''b'' ''Bee'' True) None
               [Element (OtherElement ''bold'' []) (Some ''Bee'')
                  [Element (NoteLink ''c'' ''C'' False) None [Text ''C'']]]]] ''c''
       = []"
  by (simp add: linkInBold_def recipe_def resolve_def js_index_def getBacklinkMatches_def)

text \<open>
  C5, as stated, fails in its second half: no input yields a match whose path is a
  single index.
\<close>

theorem C5_no_path_of_length_one:
  "\<not> (\<exists>nodes noteId m. m \<in> set (getBacklinkMatches nodes noteId) \<and> length (match_path m) = 1)"
proof
  assume "\<exists>nodes noteId m. m \<in> set (getBacklinkMatches nodes noteId) \<and> length (match_path m) = 1"
  then obtain nodes noteId m where m: "m \<in> set (getBacklinkMatches nodes noteId)"
    and l: "length (match_path m) = 1"
    by blast
  from matches_sound [OF m] obtain p i where "match_path m = p @ [i]" "p \<noteq> []"
    by blast
  with l show False by (cases p) auto
qed

text \<open>
  C5, amended. Every path recorded in a match of the finder has at least two indices
  (so it is never empty), and two is the minimum: the match of the concrete scenario has
  a path of exactly two indices.
\<close>

theorem C5_paths_have_length_two:
  "(\<forall>m \<in> set (getBacklinkMatches nodes noteId). 2 \<le> length (match_path m))
   \<and> (\<exists>m \<in> set (getBacklinkMatches (note_content scenarioA) ''b''). length (match_path m) = 2)"
proof
  show "\<forall>m \<in> set (getBacklinkMatches nodes noteId). 2 \<le> length (match_path m)"
  proof
    fix m assume "m \<in> set (getBacklinkMatches nodes noteId)"
    from matches_sound [OF this] obtain p i where "match_path m = p @ [i]" "p \<noteq> []"
      by blast
    then show "2 \<le> length (match_path m)" by (cases p) auto
  qed
  show "\<exists>m \<in> set (getBacklinkMatches (note_content scenarioA) ''b''). length (match_path m) = 2"
    by (simp add: scenario_matches)
qed

theorem C5_paths_have_length_two_witness:
  "\<lparr>match_context = ''B'', match_path = [0, 0]\<rparr>
      \<in> set (getBacklinkMatches (note_content scenarioA) ''b'')
   \<and> 2 \<le> length (match_path \<lparr>match_context = ''B'', match_path = [0, 0]\<rparr>)"
proof -
  have h: "\<lparr>match_context = ''B'', match_path = [0, 0]\<rparr>
      \<in> set (getBacklinkMatches (note_content scenarioA) ''b'')"
    by (simp add: scenario_matches)
  with C5_paths_have_length_two [of "note_content scenarioA" "''b''"] show ?thesis
    by blast
qed

text \<open>
  C6. The concrete scenario: over the documents A and B the finder, asked for \<open>b\<close>,
  returns one backlink, for \<open>a\<close>, with one match of path \<open>[0, 0]\<close> and context
  \<open>B\<close>; the rewriter with the new title \<open>Bee\<close> then hands over one row for \<open>a\<close>,
  in whose content the link has the \<open>noteTitle\<close> \<open>Bee\<close> and the text child \<open>Bee\<close>.
\<close>

theorem C6_concrete_scenario:
  "fst (useBacklinks (Some u) [scenarioA, scenarioB] ''b'') =
     [\<lparr>backlink_id = ''a'', backlink_title = ''Old'',
       matches = [\<lparr>match_context = ''B'', match_path = [0, 0]\<rparr>]\<rparr>]
   \<and> snd (useBacklinks (Some u) [scenarioA, scenarioB] ''b'') ''Bee'' =
     Inr \<lparr>console_errors = [],
          upserts = [[\<lparr>row_id = ''a'', row_title = ''Old'', row_user_id = user_id u,
                      row_content =
                        [Element (OtherElement ''paragraph'' []) None
                           [Element (NoteLink ''b'' ''Bee'' True) None [Text ''Bee'']]]\<rparr>]]\<rparr>"
  unfolding useBacklinks_parts scenario_finder
  by (simp add: scenarioA_def scenarioB_def updateBacklinks_def findContent_def recipe_def
      resolve_def js_index_def)

text \<open>
  C7. For every match that the finder records there are a path \<open>p\<close> and an index \<open>i\<close>
  such that \<open>p\<close> resolves to a node \<open>parent\<close> that was visited (it is not a text node),
  the child \<open>i\<close> of \<open>parent\<close> is a link to \<open>noteId\<close> with a non-empty text, the
  match's context is the flattened text of \<open>parent\<close> (not of the link), and the match's
  path is \<open>p\<close> extended by \<open>i\<close>, which resolves to the link.
\<close>

theorem C7_context_of_parent:
  "\<forall>m \<in> set (getBacklinkMatches nodes noteId).
     \<exists>p i parent link.
        match_path m = p @ [i] \<and> p \<noteq> [] \<and> resolve nodes p = Inr (Some parent)
        \<and> \<not> isText parent \<and> descend (Some parent) [i] = Inr (Some link)
        \<and> isNoteLink link \<and> noteIdOf link = Some noteId \<and> node_string link \<noteq> []
        \<and> match_context m = node_string parent
        \<and> resolve nodes (match_path m) = Inr (Some link)"
  using matches_sound by blast

theorem C7_context_of_parent_witness:
  "\<lparr>match_context = ''B'', match_path = [0, 0]\<rparr>
      \<in> set (getBacklinkMatches (note_content scenarioA) ''b'')
   \<and> (\<exists>p i parent link.
        match_path \<lparr>match_context = ''B'', match_path = [0, 0]\<rparr> = p @ [i] \<and> p \<noteq> []
        \<and> resolve (note_content scenarioA) p = Inr (Some parent)
        \<and> \<not> isText parent \<and> descend (Some parent) [i] = Inr (Some link)
        \<and> isNoteLink link \<and> noteIdOf link = Some ''b'' \<and> node_string link \<noteq> []
        \<and> match_context \<lparr>match_context = ''B'', match_path = [0, 0]\<rparr> = node_string parent
        \<and> resolve (note_content scenarioA)
             (match_path \<lparr>match_context = ''B'', match_path = [0, 0]\<rparr>) = Inr (Some link))"
proof -
  have h: "\<lparr>match_context = ''B'', match_path = [0, 0]\<rparr>
      \<in> set (getBacklinkMatches (note_content scenarioA) ''b'')"
    by (simp add: scenario_matches)
  with C7_context_of_parent [of "note_content scenarioA" "''b''"] show ?thesis
    by blast
qed




text \<open>
  C9. Patching is idempotent: when the loop over the matches of a backlink turns a
  content into \<open>content'\<close>, the same loop with the same matches and the same new title
  returns on \<open>content'\<close> and leaves it as it is. This holds for every content, every list
  of matches and every title.
\<close>

theorem C9_rewrite_idempotent:
  "applyMatches content ms newTitle = Inr content' \<Longrightarrow>
   applyMatches content' ms newTitle = Inr content'"
  by (rule applyMatches_idem)

theorem C9_rewrite_idempotent_witness:
  "applyMatches (note_content scenarioA) [\<lparr>match_context = ''B'', match_path = [0, 0]\<rparr>] ''Bee''
     = Inr [Element (OtherElement ''paragraph'' []) None
              [Element (NoteLink ''b'' ''Bee'' True) None [Text ''Bee'']]]
   \<and> applyMatches
        [Element (OtherElement ''paragraph'' []) None
           [Element (NoteLink ''b'' ''Bee'' True) None [Text ''Bee'']]]
        [\<lparr>match_context = ''B'', match_path = [0, 0]\<rparr>] ''Bee''
     = Inr [Element (OtherElement ''paragraph'' []) None
              [Element (NoteLink ''b'' ''Bee'' True) None [Text ''Bee'']]]"
proof -
  have h: "applyMatches (note_content scenarioA)
      [\<lparr>match_context = ''B'', match_path = [0, 0]\<rparr>] ''Bee''
     = Inr [Element (OtherElement ''paragraph'' []) None
              [Element (NoteLink ''b'' ''Bee'' True) None [Text ''Bee'']]]"
    by (simp add: scenarioA_def recipe_def resolve_def js_index_def)
  from C9_rewrite_idempotent [OF h] h show ?thesis by simp
qed

text \<open>
  C10. Without an authenticated user \<open>updateBacklinks\<close> returns at once: for every
  collection of notes, every list of backlinks and every new title it writes nothing to
  the console, patches nothing and never calls the upsert; the same holds for the
  callback that the hook returns.
\<close>

theorem C10_no_user_no_upsert:
  "updateBacklinks None notes backlinks newTitle = Inr \<lparr>console_errors = [], upserts = []\<rparr>
   \<and> snd (useBacklinks None notes noteId) newTitle =
       Inr \<lparr>console_errors = [], upserts = []\<rparr>"
  by (simp add: updateBacklinks_def useBacklinks_def Let_def)

end
